theory Spec2Isabelle
  imports Complex_Main
begin

section \<open>Tensor elements\<close>

text \<open>
  The module \<^verbatim>\<open>pymc/distributions/multivariate.py\<close> builds its log-densities from
  elementwise floating-point arithmetic. A tensor element is modelled with the special
  values of a float kept apart and its finite values idealised: \<open>Fin r\<close> is a finite
  float, read as the real \<open>r\<close> (rounding, overflow and the sign of zero are not
  modelled), \<open>PInf\<close> and \<open>NInf\<close> are the two infinities and \<open>NaN\<close> is not-a-number.
  The arithmetic never raises: an undefined operation gives \<open>NaN\<close>, a division by zero
  or a logarithm of zero gives an infinity.
\<close>

datatype fval = Fin real | PInf | NInf | NaN

instantiation fval :: comm_monoid_add
begin

definition zero_fval :: fval where
  "zero_fval = Fin 0"

fun plus_fval :: "fval \<Rightarrow> fval \<Rightarrow> fval" where
  "plus_fval NaN _ = NaN"
| "plus_fval _ NaN = NaN"
| "plus_fval (Fin a) (Fin b) = Fin (a + b)"
| "plus_fval (Fin a) PInf = PInf"
| "plus_fval (Fin a) NInf = NInf"
| "plus_fval PInf (Fin b) = PInf"
| "plus_fval NInf (Fin b) = NInf"
| "plus_fval PInf PInf = PInf"
| "plus_fval NInf NInf = NInf"
| "plus_fval PInf NInf = NaN"
| "plus_fval NInf PInf = NaN"

instance
proof (intro_classes, goal_cases)
  case (1 u v w)
  show ?case
    by (cases u; cases v; cases w; simp)
next
  case (2 u v)
  show ?case
    by (cases u; cases v; simp)
next
  case (3 u)
  show ?case
    by (cases u; simp add: zero_fval_def)
qed

end

instantiation fval :: "{uminus, minus, times, inverse}"
begin

fun uminus_fval :: "fval \<Rightarrow> fval" where
  "uminus_fval (Fin a) = Fin (- a)"
| "uminus_fval PInf = NInf"
| "uminus_fval NInf = PInf"
| "uminus_fval NaN = NaN"

definition minus_fval :: "fval \<Rightarrow> fval \<Rightarrow> fval" where
  "minus_fval a b = a + (- b)"

fun times_fval :: "fval \<Rightarrow> fval \<Rightarrow> fval" where
  "times_fval NaN _ = NaN"
| "times_fval _ NaN = NaN"
| "times_fval (Fin a) (Fin b) = Fin (a * b)"
| "times_fval (Fin a) PInf = (if a = 0 then NaN else if 0 < a then PInf else NInf)"
| "times_fval (Fin a) NInf = (if a = 0 then NaN else if 0 < a then NInf else PInf)"
| "times_fval PInf (Fin b) = (if b = 0 then NaN else if 0 < b then PInf else NInf)"
| "times_fval NInf (Fin b) = (if b = 0 then NaN else if 0 < b then NInf else PInf)"
| "times_fval PInf PInf = PInf"
| "times_fval NInf NInf = PInf"
| "times_fval PInf NInf = NInf"
| "times_fval NInf PInf = NInf"

fun divide_fval :: "fval \<Rightarrow> fval \<Rightarrow> fval" where
  "divide_fval NaN _ = NaN"
| "divide_fval _ NaN = NaN"
| "divide_fval (Fin a) (Fin b) =
     (if b = 0 then (if a = 0 then NaN else if 0 < a then PInf else NInf) else Fin (a / b))"
| "divide_fval (Fin a) PInf = Fin 0"
| "divide_fval (Fin a) NInf = Fin 0"
| "divide_fval PInf (Fin b) = (if 0 \<le> b then PInf else NInf)"
| "divide_fval NInf (Fin b) = (if 0 \<le> b then NInf else PInf)"
| "divide_fval PInf PInf = NaN"
| "divide_fval NInf NInf = NaN"
| "divide_fval PInf NInf = NaN"
| "divide_fval NInf PInf = NaN"

definition inverse_fval :: "fval \<Rightarrow> fval" where
  "inverse_fval a = divide (Fin 1) a"

instance ..

end

text \<open>
  \<^verbatim>\<open>log\<close> of the tensor backend: \<open>-inf\<close> at zero, \<open>nan\<close> below it.
\<close>

fun flog :: "fval \<Rightarrow> fval" where
  "flog (Fin a) = (if 0 < a then Fin (ln a) else if a = 0 then NInf else NaN)"
| "flog PInf = PInf"
| "flog NInf = NaN"
| "flog NaN = NaN"

section \<open>Shapes and errors\<close>

text \<open>
  The backend raises on operands whose shapes do not fit, and its linear-algebra
  routines raise on a matrix they cannot handle. Both are values of the model.
\<close>

datatype error = ShapeError | LinAlgError

text \<open>A vector is the list of its elements, a matrix the list of its rows.\<close>

type_synonym matrix = "real list list"

text \<open>
  An elementwise binary operation on two vectors. The lengths must agree: mismatched
  vector lengths are shape errors of the backend.
\<close>

definition ewise :: "('a \<Rightarrow> 'b \<Rightarrow> 'c) \<Rightarrow> 'a list \<Rightarrow> 'b list \<Rightarrow> error + 'c list" where
  "ewise f xs ys =
     (if length xs = length ys then Inr (map2 f xs ys) else Inl ShapeError)"

section \<open>Helpers of \<^verbatim>\<open>dist_math\<close>\<close>

text \<open>
  Modelled from the spec: \<^verbatim>\<open>bound\<close> is defined in \<^verbatim>\<open>dist_math\<close>, which is not among the
  sources. The spec's bound idiom: the raw log-density is computed unconditionally and
  is replaced by negative infinity whenever any guard predicate is false. A guard
  is a tensor of truth values (a scalar guard is a tensor of one element).
\<close>

definition bound :: "fval \<Rightarrow> bool list list \<Rightarrow> fval" where
  "bound logp conditions =
     (if list_all (\<lambda>c. list_all (\<lambda>b. b) c) conditions then logp else NInf)"

text \<open>
  Modelled from the spec: \<^verbatim>\<open>factln\<close> is defined in \<^verbatim>\<open>dist_math\<close>, which is not among
  the sources. The spec's log-factorial: \<open>factln n = log (n!)\<close>. The spec gives it no
  value at a negative count; the model takes \<open>NaN\<close> there.
\<close>

definition factln :: "int \<Rightarrow> fval" where
  "factln n = (if 0 \<le> n then Fin (ln (fact (nat n))) else NaN)"

text \<open>
  Modelled from the spec: \<^verbatim>\<open>logpow\<close> is defined in \<^verbatim>\<open>dist_math\<close>, which is not among
  the sources. The spec's Dirichlet contract writes the term \<^verbatim>\<open>logpow(x, m)\<close> as
  \<open>m * log x\<close>.
\<close>

definition logpow :: "real \<Rightarrow> real \<Rightarrow> fval" where
  "logpow x m = Fin m * flog (Fin x)"

section \<open>Multinomial\<close>

text \<open>
  \<^verbatim>\<open>Multinomial(n, p)\<close> is a discrete distribution: the trial count \<open>n\<close> and the
  counts \<open>x\<close> are integers, the probabilities \<open>p\<close> are floats.
  \<^verbatim>\<open>
    def logp(x):
        return bound(
            factln(n) + sum(x * log(p) - factln(x)),
            n > 0,
            0 <= x, x <= n)
    mean = n * p
  \<close>
\<close>

definition Multinomial_logp :: "int \<Rightarrow> real list \<Rightarrow> int list \<Rightarrow> error + fval" where
  "Multinomial_logp n p x =
     (case ewise (\<lambda>xi pi. Fin (of_int xi) * flog (Fin pi)) x p of
        Inl e \<Rightarrow> Inl e
      | Inr xlogp \<Rightarrow>
         (case ewise (\<lambda>t f. t - f) xlogp (map factln x) of
            Inl e \<Rightarrow> Inl e
          | Inr terms \<Rightarrow>
              Inr (bound (factln n + sum_list terms)
                     [[0 < n], map (\<lambda>xi. 0 \<le> xi) x, map (\<lambda>xi. xi \<le> n) x])))"


section \<open>Dirichlet\<close>

text \<open>
  \<^verbatim>\<open>Dirichlet(k, a)\<close>: \<open>k\<close> is an integer and \<open>a\<close> a float tensor, a scalar or a vector.
  \<^verbatim>\<open>
    a = ones([k]) * a

    def logp(value):
        return bound(
            sum(logpow(value, a - 1) - gammaln(a), axis=0) + gammaln(sum(a)),
            k > 1,
            a > 0)

    mean = a / sum(a)
    mode = switch(all(a > 1), (a - 1) / sum(a - 1), nan)
  \<close>
\<close>

datatype tensor = Scalar real | Vector "real list"

text \<open>
  \<^verbatim>\<open>ones([k])\<close> is the vector of \<open>k\<close> ones; the backend refuses a negative length.
\<close>

definition ones :: "int \<Rightarrow> error + real list" where
  "ones k = (if k < 0 then Inl ShapeError else Inr (replicate (nat k) 1))"

text \<open>
  The first statement of \<^verbatim>\<open>Dirichlet\<close>, \<^verbatim>\<open>a = ones([k]) * a\<close>: a scalar is multiplied
  into every one, a vector is multiplied elementwise and must have length \<open>k\<close>.
\<close>

definition Dirichlet_a :: "int \<Rightarrow> tensor \<Rightarrow> error + real list" where
  "Dirichlet_a k a =
     (case ones k of
        Inl e \<Rightarrow> Inl e
      | Inr os \<Rightarrow>
         (case a of
            Scalar v \<Rightarrow> Inr (map (\<lambda>one. one * v) os)
          | Vector vs \<Rightarrow> ewise (\<lambda>one v. one * v) os vs))"

text \<open>
  \<^verbatim>\<open>gammaln\<close> is the log-gamma function of the tensor backend, a parameter of the
  model.
\<close>

definition Dirichlet_logp ::
  "(real \<Rightarrow> fval) \<Rightarrow> int \<Rightarrow> tensor \<Rightarrow> real list \<Rightarrow> error + fval" where
  "Dirichlet_logp gammaln k a0 v =
     (case Dirichlet_a k a0 of
        Inl e \<Rightarrow> Inl e
      | Inr a \<Rightarrow>
         (case ewise logpow v (map (\<lambda>ai. ai - 1) a) of
            Inl e \<Rightarrow> Inl e
          | Inr lp \<Rightarrow>
             (case ewise (\<lambda>t g. t - g) lp (map gammaln a) of
                Inl e \<Rightarrow> Inl e
              | Inr terms \<Rightarrow>
                  Inr (bound (sum_list terms + gammaln (sum_list a))
                         [[1 < k], map (\<lambda>ai. 0 < ai) a]))))"



section \<open>Linear algebra of the backend\<close>

text \<open>
  \<open>mat r c M\<close>: the list of rows \<open>M\<close> is an \<open>r\<close> by \<open>c\<close> matrix.
\<close>

definition mat :: "nat \<Rightarrow> nat \<Rightarrow> matrix \<Rightarrow> bool" where
  "mat r c M \<longleftrightarrow> length M = r \<and> list_all (\<lambda>row. length row = c) M"

text \<open>
  \<^verbatim>\<open>dot\<close> of two vectors and of a matrix and a vector; the inner lengths must agree.
\<close>

definition dot_vv :: "real list \<Rightarrow> real list \<Rightarrow> error + real" where
  "dot_vv u v =
     (if length u = length v then Inr (sum_list (map2 (\<lambda>a b. a * b) u v))
      else Inl ShapeError)"

definition dot_mv :: "matrix \<Rightarrow> real list \<Rightarrow> error + real list" where
  "dot_mv M v =
     (if list_all (\<lambda>row. length row = length v) M
      then Inr (map (\<lambda>row. sum_list (map2 (\<lambda>a b. a * b) row v)) M)
      else Inl ShapeError)"

text \<open>
  \<^verbatim>\<open>trace\<close>: the sum of the diagonal (for an \<open>r\<close> by \<open>c\<close> matrix, of its first
  \<open>min r c\<close> diagonal entries).
\<close>

definition trace :: "matrix \<Rightarrow> real" where
  "trace M = (\<Sum>i<length M. if i < length (M ! i) then M ! i ! i else 0)"

text \<open>
  \<^verbatim>\<open>det\<close> and \<^verbatim>\<open>solve\<close> are routines of the backend's linear-algebra library
  (\<^verbatim>\<open>theano.sandbox.linalg\<close>). They are parameters of the model: \<open>det :: matrix \<Rightarrow>
  error + real\<close> and \<open>solve :: matrix \<Rightarrow> matrix \<Rightarrow> error + matrix\<close>, where
  \<open>solve V X\<close> is the solution \<open>Y\<close> of \<open>V Y = X\<close>. Either may raise.
\<close>

section \<open>MvNormal\<close>

text \<open>
  \<^verbatim>\<open>
    def logp(value):
        delta = value - mu
        k = tau.shape[0]
        return 1/2. * (-k * log(2*pi) + log(det(tau)) - dot(delta.T, dot(tau, delta)))
  \<close>
\<close>

definition MvNormal_logp ::
  "(matrix \<Rightarrow> error + real) \<Rightarrow> real list \<Rightarrow> matrix \<Rightarrow> real list \<Rightarrow> error + fval" where
  "MvNormal_logp det mu tau v =
     (case ewise (\<lambda>a b. a - b) v mu of
        Inl e \<Rightarrow> Inl e
      | Inr delta \<Rightarrow>
         (let k = length tau in
          case det tau of
            Inl e \<Rightarrow> Inl e
          | Inr d \<Rightarrow>
             (case dot_mv tau delta of
                Inl e \<Rightarrow> Inl e
              | Inr td \<Rightarrow>
                 (case dot_vv delta td of
                    Inl e \<Rightarrow> Inl e
                  | Inr q \<Rightarrow>
                      Inr (Fin (1 / 2) *
                           (Fin (- real k) * flog (Fin (2 * pi)) + flog (Fin d) - Fin q))))))"

section \<open>Wishart\<close>

text \<open>
  \<^verbatim>\<open>Wishart(n, p, V)\<close>: \<open>n\<close> is a scalar, \<open>p\<close> an integer, \<open>V\<close> a matrix.
  \<^verbatim>\<open>
    def logp(X):
        IVI = det(V)
        return bound(
            ((n - p - 1) * log(IVI) - trace(solve(V, X)) -
             n * p * log(2) - n * log(IVI) - 2 * multigammaln(p, n / 2)) / 2,
            n > p - 1)
  \<close>
  \<^verbatim>\<open>multigammaln\<close> is defined in \<^verbatim>\<open>dist_math\<close>, which is not among the sources, and
  the spec names it without a formula: it is a parameter of the model.
\<close>

definition Wishart_logp ::
  "(matrix \<Rightarrow> error + real) \<Rightarrow> (matrix \<Rightarrow> matrix \<Rightarrow> error + matrix) \<Rightarrow>
   (int \<Rightarrow> real \<Rightarrow> fval) \<Rightarrow> real \<Rightarrow> int \<Rightarrow> matrix \<Rightarrow> matrix \<Rightarrow> error + fval" where
  "Wishart_logp det solve multigammaln n p V X =
     (case det V of
        Inl e \<Rightarrow> Inl e
      | Inr IVI \<Rightarrow>
         (case solve V X of
            Inl e \<Rightarrow> Inl e
          | Inr S \<Rightarrow>
              Inr (bound
                     ((Fin (n - of_int p - 1) * flog (Fin IVI) - Fin (trace S)
                       - Fin (n * of_int p) * flog (Fin 2) - Fin n * flog (Fin IVI)
                       - Fin 2 * multigammaln p (n / 2)) / Fin 2)
                     [[of_int p - 1 < n]])))"

section \<open>Square matrices, permutations and the contracts of the library routines\<close>

text \<open>The \<open>p\<close> by \<open>p\<close> matrix with the entry \<open>f i j\<close> in row \<open>i\<close> and column \<open>j\<close>.\<close>

definition matrix_of :: "nat \<Rightarrow> (nat \<Rightarrow> nat \<Rightarrow> real) \<Rightarrow> matrix" where
  "matrix_of p f = map (\<lambda>i. map (\<lambda>j. f i j) [0..<p]) [0..<p]"

definition mat_mul :: "nat \<Rightarrow> matrix \<Rightarrow> matrix \<Rightarrow> matrix" where
  "mat_mul p A B = matrix_of p (\<lambda>i j. \<Sum>k<p. A ! i ! k * B ! k ! j)"

definition mat_transpose :: "nat \<Rightarrow> matrix \<Rightarrow> matrix" where
  "mat_transpose p A = matrix_of p (\<lambda>i j. A ! j ! i)"

definition identity :: "nat \<Rightarrow> matrix" where
  "identity p = matrix_of p (\<lambda>i j. if i = j then 1 else 0)"

text \<open>
  A permutation matrix: entries \<open>0\<close> or \<open>1\<close>, every row and every column with sum \<open>1\<close>.
\<close>

definition perm_matrix :: "nat \<Rightarrow> matrix \<Rightarrow> bool" where
  "perm_matrix p P \<longleftrightarrow>
     mat p p P \<and> (\<forall>i<p. \<forall>j<p. P ! i ! j = 0 \<or> P ! i ! j = 1) \<and>
     (\<forall>i<p. (\<Sum>j<p. P ! i ! j) = 1) \<and> (\<forall>j<p. (\<Sum>i<p. P ! i ! j) = 1)"

text \<open>\<open>P V P\<^sup>T\<close>: the rows and the columns of \<open>V\<close> permuted alike.\<close>

definition permute :: "nat \<Rightarrow> matrix \<Rightarrow> matrix \<Rightarrow> matrix" where
  "permute p P V = mat_mul p (mat_mul p P V) (mat_transpose p P)"

text \<open>Symmetric positive-definite matrices.\<close>

definition spd :: "nat \<Rightarrow> matrix \<Rightarrow> bool" where
  "spd p V \<longleftrightarrow>
     mat p p V \<and> (\<forall>i<p. \<forall>j<p. V ! i ! j = V ! j ! i) \<and>
     (\<forall>y. length y = p \<and> y \<noteq> replicate p 0 \<longrightarrow>
          0 < (\<Sum>i<p. \<Sum>j<p. y ! i * V ! i ! j * y ! j))"

text \<open>
  What the model asks of the library routines on \<open>p\<close> by \<open>p\<close> matrices, in exact
  arithmetic. \<^verbatim>\<open>det\<close> returns on every square matrix, and what it returns is
  multiplicative with the value \<open>1\<close> at the identity. \<^verbatim>\<open>solve(V, X)\<close> returns a
  solution \<open>Y\<close> of \<open>V Y = X\<close> for a symmetric positive-definite \<open>V\<close>.
\<close>

definition det_contract :: "nat \<Rightarrow> (matrix \<Rightarrow> error + real) \<Rightarrow> bool" where
  "det_contract p det \<longleftrightarrow>
     (\<exists>D. (\<forall>A. mat p p A \<longrightarrow> det A = Inr (D A)) \<and> D (identity p) = 1 \<and>
          (\<forall>A B. mat p p A \<and> mat p p B \<longrightarrow> D (mat_mul p A B) = D A * D B))"

definition solve_contract :: "nat \<Rightarrow> (matrix \<Rightarrow> matrix \<Rightarrow> error + matrix) \<Rightarrow> bool" where
  "solve_contract p solve \<longleftrightarrow>
     (\<forall>V X. spd p V \<and> mat p p X \<longrightarrow>
            (\<exists>Y. solve V X = Inr Y \<and> mat p p Y \<and> mat_mul p V Y = X))"

section \<open>A concrete backend for the examples\<close>

text \<open>
  The determinant and the solution of \<open>V Y = X\<close> for matrices of one and of two rows,
  by Cramer's rule. Like the library routine, \<open>solve_small\<close> raises on a singular \<open>V\<close>.
\<close>

definition det_small :: "matrix \<Rightarrow> error + real" where
  "det_small M =
     (if mat 1 1 M then Inr (M ! 0 ! 0)
      else if mat 2 2 M then Inr (M ! 0 ! 0 * M ! 1 ! 1 - M ! 0 ! 1 * M ! 1 ! 0)
      else Inl LinAlgError)"

definition solve_small :: "matrix \<Rightarrow> matrix \<Rightarrow> error + matrix" where
  "solve_small V X =
     (if mat 1 1 V \<and> mat 1 1 X then
        (if V ! 0 ! 0 = 0 then Inl LinAlgError else Inr [[X ! 0 ! 0 / V ! 0 ! 0]])
      else if mat 2 2 V \<and> mat 2 2 X then
        (let a = V ! 0 ! 0; b = V ! 0 ! 1; c = V ! 1 ! 0; d = V ! 1 ! 1;
             D = a * d - b * c
         in if D = 0 then Inl LinAlgError
            else Inr [[(d * X ! 0 ! 0 - b * X ! 1 ! 0) / D, (d * X ! 0 ! 1 - b * X ! 1 ! 1) / D],
                      [(a * X ! 1 ! 0 - c * X ! 0 ! 0) / D, (a * X ! 1 ! 1 - c * X ! 0 ! 1) / D]])
      else Inl LinAlgError)"

text \<open>
  The log-gamma function at the positive multiples of \<open>1/2\<close>:
  \<open>lgamma n = log ((n - 1)!)\<close> and
  \<open>lgamma (n + 1/2) = log ((2 n)!) + log pi / 2 - n log 4 - log (n!)\<close>.
  \<open>gammaln_half\<close> has these values and is \<open>NaN\<close> everywhere else.
\<close>

definition gammaln_half :: "real \<Rightarrow> fval" where
  "gammaln_half a =
     (let m = \<lfloor>2 * a\<rfloor> in
      if of_int m = 2 * a \<and> 0 < m then
        (if even m then Fin (ln (fact (nat (m div 2) - 1)))
         else Fin (ln (fact (2 * nat (m div 2))) + ln pi / 2
                   - of_nat (nat (m div 2)) * ln 4 - ln (fact (nat (m div 2)))))
      else NaN)"

text \<open>
  The multivariate log-gamma function of order \<open>p\<close> in terms of a log-gamma:
  \<open>p (p - 1) / 4 * log pi + sum_{j = 1..p} lgamma (a + (1 - j) / 2)\<close>.
\<close>

definition multigammaln_of :: "(real \<Rightarrow> fval) \<Rightarrow> int \<Rightarrow> real \<Rightarrow> fval" where
  "multigammaln_of gammaln p a =
     Fin (of_int (p * (p - 1)) / 4 * ln pi)
     + (\<Sum>j\<leftarrow>[1..p]. gammaln (a + (1 - of_int j) / 2))"

section \<open>Facts about the arithmetic\<close>

lemma fval_minus_Fin [simp]: "Fin a - Fin b = Fin (a - b)"
  by (simp add: minus_fval_def)


lemma sum_Fin: "finite A \<Longrightarrow> (\<Sum>i\<in>A. Fin (f i)) = Fin (\<Sum>i\<in>A. f i)"
  by (induction A rule: finite_induct) (simp_all add: zero_fval_def)

lemma sum_list_map2_nth:
  fixes f :: "'a \<Rightarrow> 'b \<Rightarrow> 'c::comm_monoid_add"
  assumes "length xs = length ys"
  shows "sum_list (map2 f xs ys) = (\<Sum>i<length xs. f (xs ! i) (ys ! i))"
proof -
  have "sum_list (map2 f xs ys) = (\<Sum>i = 0..<length (map2 f xs ys). map2 f xs ys ! i)"
    by (rule sum_list_sum_nth)
  also have "\<dots> = (\<Sum>i = 0..<length xs. f (xs ! i) (ys ! i))"
    using assms by (intro sum.cong) simp_all
  finally show ?thesis
    by (simp add: atLeast0LessThan)
qed

section \<open>Multinomial: the claims\<close>

lemma Multinomial_guard:
  "bound v [[0 < n], map (\<lambda>xi. 0 \<le> xi) x, map (\<lambda>xi. xi \<le> (n::int)) x] =
     (if 0 < n \<and> (\<forall>i<length x. 0 \<le> x ! i \<and> x ! i \<le> n) then v else NInf)"
  by (auto simp: bound_def list_all_iff all_set_conv_all_nth)

lemma Multinomial_logp_raw:
  assumes "length x = length p"
  shows "Multinomial_logp n p x =
     Inr (bound (factln n +
            (\<Sum>i<length x. Fin (of_int (x ! i)) * flog (Fin (p ! i)) - factln (x ! i)))
          [[0 < n], map (\<lambda>xi. 0 \<le> xi) x, map (\<lambda>xi. xi \<le> n) x])"
proof -
  let ?xlogp = "map2 (\<lambda>xi pi. Fin (of_int xi) * flog (Fin pi)) x p"
  have "sum_list (map2 (\<lambda>t f. t - f) ?xlogp (map factln x)) =
        (\<Sum>i<length ?xlogp. ?xlogp ! i - map factln x ! i)"
    using assms by (intro sum_list_map2_nth) simp
  also have "\<dots> = (\<Sum>i<length x. Fin (of_int (x ! i)) * flog (Fin (p ! i)) - factln (x ! i))"
    using assms by (intro sum.cong) simp_all
  finally show ?thesis
    using assms by (simp add: Multinomial_logp_def ewise_def)
qed

text \<open>
  C3: for a trial count \<open>n\<close>, a probability vector \<open>p\<close> and a count vector \<open>x\<close> of the
  same length, \<^verbatim>\<open>Multinomial.logp\<close> is \<open>log (n!) + sum_i (x_i * log p_i - log (x_i!))\<close>
  when \<open>n > 0\<close> and \<open>0 \<le> x_i \<le> n\<close> for every \<open>i\<close>, and negative infinity when
  \<open>n \<le> 0\<close> or some \<open>x_i < 0\<close> or some \<open>x_i > n\<close>.
\<close>

theorem Multinomial_logp_contract:
  assumes "length x = length p"
  shows "Multinomial_logp n p x =
     Inr (if 0 < n \<and> (\<forall>i<length x. 0 \<le> x ! i \<and> x ! i \<le> n)
          then Fin (ln (fact (nat n))) +
               (\<Sum>i<length x. Fin (of_int (x ! i)) * flog (Fin (p ! i))
                                - Fin (ln (fact (nat (x ! i)))))
          else NInf)"
proof (cases "0 < n \<and> (\<forall>i<length x. 0 \<le> x ! i \<and> x ! i \<le> n)")
  case True
  then have terms: "(\<Sum>i<length x. Fin (of_int (x ! i)) * flog (Fin (p ! i)) - factln (x ! i)) =
      (\<Sum>i<length x. Fin (of_int (x ! i)) * flog (Fin (p ! i)) - Fin (ln (fact (nat (x ! i)))))"
    by (intro sum.cong) (simp_all add: factln_def)
  from True have fn: "factln n = Fin (ln (fact (nat n)))"
    by (simp add: factln_def)
  show ?thesis
    by (simp only: Multinomial_logp_raw [OF assms] Multinomial_guard terms fn if_P [OF True])
next
  case False
  show ?thesis
    by (simp only: Multinomial_logp_raw [OF assms] Multinomial_guard if_not_P [OF False])
qed

text \<open>
  The scenario of the spec, \<^verbatim>\<open>Multinomial(n=10, p=[0.5, 0.5])\<close> at \<open>[5, 5]\<close>, with the
  value \<open>log 252 - 10 log 2\<close>; and counts outside \<open>0 \<le> x_i \<le> n\<close>.
\<close>

lemma ln_252: "ln (fact 10) - 2 * ln (fact 5) = ln (252::real)"
proof -
  have "(fact 10 :: real) = 252 * (120 * 120)" and "(fact 5 :: real) = 120"
    by (simp_all add: fact_numeral)
  moreover have "ln (252 * (120 * 120) :: real) = ln 252 + (ln 120 + ln 120)"
    by (simp only: ln_mult_pos)
  ultimately show ?thesis
    by (simp only:)
qed

theorem Multinomial_logp_contract_witness:
  "Multinomial_logp 10 [1 / 2, 1 / 2] [5, 5] = Inr (Fin (ln 252 - 10 * ln 2)) \<and>
   Multinomial_logp 10 [1 / 2, 1 / 2] [11, - 1] = Inr NInf"
  using Multinomial_logp_contract [of "[5, 5]" "[1 / 2, 1 / 2]" 10]
    Multinomial_logp_contract [of "[11, - 1]" "[1 / 2, 1 / 2]" 10] ln_252
  by (simp add: lessThan_Suc numeral_2_eq_2 All_less_Suc ln_div)



text \<open>
  C10: the guard of \<^verbatim>\<open>Multinomial.logp\<close> tests only \<open>n > 0\<close> and \<open>0 \<le> x_i \<le> n\<close>. For
  \<open>n > 0\<close>, counts within \<open>0 \<le> x_i \<le> n\<close> and probabilities \<open>p_i > 0\<close> the result is
  the finite raw value \<open>factln n + sum_i (x_i * log p_i - factln x_i)\<close>, whatever
  \<open>sum x\<close> and \<open>sum p\<close> are: nothing is assumed of them. The example after the
  theorem has \<open>sum x = 11\<close> with \<open>n = 10\<close> and \<open>sum p = 3 / 4\<close>.
\<close>

theorem Multinomial_logp_unchecked_sums:
  assumes "length x = length p"
    and "0 < n"
    and "\<forall>i<length x. 0 \<le> x ! i \<and> x ! i \<le> n"
    and "\<forall>i<length p. 0 < p ! i"
  shows "Multinomial_logp n p x =
     Inr (Fin (ln (fact (nat n)) +
            (\<Sum>i<length x. of_int (x ! i) * ln (p ! i) - ln (fact (nat (x ! i))))))"
proof -
  have "(\<Sum>i<length x. Fin (of_int (x ! i)) * flog (Fin (p ! i)) - factln (x ! i)) =
        (\<Sum>i<length x. Fin (of_int (x ! i) * ln (p ! i) - ln (fact (nat (x ! i)))))"
    using assms by (intro sum.cong) (simp_all add: factln_def)
  also have "\<dots> = Fin (\<Sum>i<length x. of_int (x ! i) * ln (p ! i) - ln (fact (nat (x ! i))))"
    by (simp add: sum_Fin)
  finally have terms:
    "(\<Sum>i<length x. Fin (of_int (x ! i)) * flog (Fin (p ! i)) - factln (x ! i)) =
     Fin (\<Sum>i<length x. of_int (x ! i) * ln (p ! i) - ln (fact (nat (x ! i))))" .
  have fn: "factln n = Fin (ln (fact (nat n)))"
    using assms(2) by (simp add: factln_def)
  have guard: "0 < n \<and> (\<forall>i<length x. 0 \<le> x ! i \<and> x ! i \<le> n)"
    using assms(2,3) by simp
  show ?thesis
    by (simp only: Multinomial_logp_raw [OF assms(1)] Multinomial_guard terms fn
          if_P [OF guard] plus_fval.simps)
qed

theorem Multinomial_logp_unchecked_sums_witness:
  "sum_list [5, 6] \<noteq> (10::int) \<and> sum_list [1 / 2, 1 / 4] \<noteq> (1::real) \<and>
   Multinomial_logp 10 [1 / 2, 1 / 4] [5, 6] =
     Inr (Fin (ln (fact 10) + (5 * ln (1 / 2) - ln (fact 5) + (6 * ln (1 / 4) - ln (fact 6)))))"
  using Multinomial_logp_unchecked_sums [of "[5, 6]" "[1 / 2, 1 / 4]" 10]
  by (simp add: lessThan_Suc numeral_2_eq_2 All_less_Suc)

section \<open>Dirichlet: the claims\<close>

lemma map2_replicate_left:
  "length ys = n \<Longrightarrow> map2 f (replicate n c) ys = map (f c) ys"
proof (induction ys arbitrary: n)
  case Nil
  then show ?case by simp
next
  case (Cons y ys)
  then obtain m where "n = Suc m"
    by (cases n) auto
  with Cons show ?case by simp
qed

text \<open>
  When \<^verbatim>\<open>a = ones([k]) * a\<close> goes through: \<open>k\<close> is not negative, a scalar is replicated
  to length \<open>k\<close> and a vector has length \<open>k\<close> and is kept.
\<close>

lemma Dirichlet_a_iff:
  "Dirichlet_a k a = Inr av \<longleftrightarrow>
     0 \<le> k \<and> (case a of Scalar v \<Rightarrow> av = replicate (nat k) v
                        | Vector vs \<Rightarrow> av = vs \<and> length vs = nat k)"
  by (cases a) (auto simp: Dirichlet_a_def ones_def ewise_def
      map2_replicate_left [where f = "\<lambda>one v. one * v"])

lemma Dirichlet_guard:
  "bound v [[1 < (k::int)], map (\<lambda>ai. 0 < ai) (av::real list)] =
     (if 1 < k \<and> (\<forall>i<length av. 0 < av ! i) then v else NInf)"
  by (auto simp: bound_def list_all_iff all_set_conv_all_nth)

lemma Dirichlet_logp_raw:
  assumes "Dirichlet_a k a = Inr av" and "length x = length av"
  shows "Dirichlet_logp gammaln k a x =
     Inr (bound ((\<Sum>i<length av. logpow (x ! i) (av ! i - 1) - gammaln (av ! i))
                 + gammaln (sum_list av))
          [[1 < k], map (\<lambda>ai. 0 < ai) av])"
proof -
  let ?lp = "map2 logpow x (map (\<lambda>ai. ai - 1) av)"
  have "sum_list (map2 (\<lambda>t g. t - g) ?lp (map gammaln av)) =
        (\<Sum>i<length ?lp. ?lp ! i - map gammaln av ! i)"
    using assms(2) by (intro sum_list_map2_nth) simp
  also have "\<dots> = (\<Sum>i<length av. logpow (x ! i) (av ! i - 1) - gammaln (av ! i))"
    using assms(2) by (intro sum.cong) simp_all
  finally show ?thesis
    using assms by (simp add: Dirichlet_logp_def ewise_def)
qed

text \<open>
  C2: for an integer \<open>k\<close> and a concentration tensor \<open>a\<close> (a scalar is first replicated
  to length \<open>k\<close>; \<open>av\<close> is the resulting vector) and a value \<open>x\<close> of that length,
  \<^verbatim>\<open>Dirichlet.logp\<close> is \<open>sum_i ((a_i - 1) * log x_i - lgamma a_i) + lgamma (sum a)\<close> when
  \<open>k > 1\<close> and every \<open>a_i > 0\<close>, and negative infinity when \<open>k \<le> 1\<close> or some
  \<open>a_i \<le> 0\<close>.
\<close>

theorem Dirichlet_logp_contract:
  assumes "Dirichlet_a k a = Inr av" and "length x = length av"
  shows "Dirichlet_logp gammaln k a x =
     Inr (if 1 < k \<and> (\<forall>i<length av. 0 < av ! i)
          then (\<Sum>i<length av. Fin (av ! i - 1) * flog (Fin (x ! i)) - gammaln (av ! i))
               + gammaln (\<Sum>i<length av. av ! i)
          else NInf)"
proof -
  have "sum_list av = (\<Sum>i<length av. av ! i)"
    by (simp add: sum_list_sum_nth atLeast0LessThan)
  then show ?thesis
    by (simp only: Dirichlet_logp_raw [OF assms] Dirichlet_guard logpow_def)
qed

theorem Dirichlet_logp_contract_witness:
  "Dirichlet_logp gammaln_half 3 (Scalar 2) [1 / 4, 1 / 4, 1 / 2] =
     Inr (Fin (ln (1 / 4) + ln (1 / 4) + ln (1 / 2) + ln (fact 5))) \<and>
   Dirichlet_logp gammaln_half 1 (Scalar 2) [1] = Inr NInf \<and>
   Dirichlet_logp gammaln_half 2 (Vector [1, 0]) [1 / 2, 1 / 2] = Inr NInf"
proof -
  have a1: "Dirichlet_a 3 (Scalar 2) = Inr [2, 2, 2]"
    by (simp add: Dirichlet_a_iff numeral_3_eq_3)
  have a2: "Dirichlet_a 1 (Scalar 2) = Inr [2]"
    by (simp add: Dirichlet_a_iff)
  have a3: "Dirichlet_a 2 (Vector [1, 0]) = Inr [1, 0]"
    by (simp add: Dirichlet_a_iff)
  show ?thesis
    using Dirichlet_logp_contract [OF a1, of "[1 / 4, 1 / 4, 1 / 2]" gammaln_half]
      Dirichlet_logp_contract [OF a2, of "[1]" gammaln_half]
      Dirichlet_logp_contract [OF a3, of "[1 / 2, 1 / 2]" gammaln_half]
    by (simp add: gammaln_half_def Let_def lessThan_Suc numeral_3_eq_3 numeral_2_eq_2 All_less_Suc)
qed

text \<open>
  C7: for \<open>k = 2\<close> and \<open>a = [1, 1]\<close>, \<^verbatim>\<open>Dirichlet.logp\<close> is \<open>0\<close> at every value \<open>x\<close> with
  two coordinates in \<open>(0, 1)\<close> that sum to \<open>1\<close>. The log-gamma of the backend enters
  through its values at \<open>1\<close> and \<open>2\<close>, which are \<open>0\<close>.
\<close>

theorem Dirichlet_logp_uniform:
  assumes "gammaln 1 = Fin 0" and "gammaln 2 = Fin 0"
    and "length x = 2" and "\<forall>i<length x. 0 < x ! i \<and> x ! i < 1" and "sum_list x = 1"
  shows "Dirichlet_logp gammaln 2 (Vector [1, 1]) x = Inr (Fin 0)"
proof -
  have a: "Dirichlet_a 2 (Vector [1, 1]) = Inr [1, 1]"
    by (simp add: Dirichlet_a_iff)
  from assms(3) obtain x1 x2 where x: "x = [x1, x2]"
    by (cases x; cases "tl x") auto
  with assms(4) have pos: "0 < x1" "0 < x2"
    by (auto simp: All_less_Suc numeral_2_eq_2)
  show ?thesis
    using Dirichlet_logp_raw [OF a, of x gammaln] assms(1,2) pos
    by (simp add: bound_def logpow_def x lessThan_Suc numeral_2_eq_2)
qed

theorem Dirichlet_logp_uniform_witness:
  "Dirichlet_logp gammaln_half 2 (Vector [1, 1]) [1 / 4, 3 / 4] = Inr (Fin 0)"
  using Dirichlet_logp_uniform [of gammaln_half "[1 / 4, 3 / 4]"]
  by (simp add: gammaln_half_def Let_def All_less_Suc numeral_2_eq_2)






section \<open>Positive-definite matrices of two rows\<close>

lemma quadratic_form_2:
  fixes V :: matrix
  shows "(\<Sum>i<2. \<Sum>j<2. [u, v] ! i * V ! i ! j * [u, v] ! j) =
         u * V ! 0 ! 0 * u + u * V ! 0 ! 1 * v + (v * V ! 1 ! 0 * u + v * V ! 1 ! 1 * v)"
  by (simp add: lessThan_Suc numeral_2_eq_2)

lemma spd_2I:
  fixes a b d :: real
  assumes a: "0 < a" and D: "0 < a * d - b * b"
  shows "spd 2 [[a, b], [b, d]]"
proof -
  let ?V = "[[a, b], [b, d]]"
  have "0 < (\<Sum>i<2. \<Sum>j<2. y ! i * ?V ! i ! j * y ! j)"
    if y: "length y = 2 \<and> y \<noteq> replicate 2 0" for y :: "real list"
  proof -
    from y obtain u v where uv: "y = [u, v]"
      by (cases y; cases "tl y") auto
    with y have nz: "u \<noteq> 0 \<or> v \<noteq> 0"
      by (auto simp: numeral_2_eq_2)
    have eq: "a * (u * a * u + u * b * v + (v * b * u + v * d * v)) =
              (a * u + b * v)\<^sup>2 + (a * d - b * b) * v\<^sup>2"
      by (simp add: power2_eq_square algebra_simps)
    have "0 < (a * u + b * v)\<^sup>2 + (a * d - b * b) * v\<^sup>2"
    proof (cases "v = 0")
      case True
      with nz a have "a * u \<noteq> 0" by simp
      with True show ?thesis by simp
    next
      case False
      then have "0 < (a * d - b * b) * v\<^sup>2"
        using D by simp
      then show ?thesis
        by (intro add_nonneg_pos) simp_all
    qed
    then have "0 < a * (u * a * u + u * b * v + (v * b * u + v * d * v))"
      by (simp only: eq)
    with a have "0 < u * a * u + u * b * v + (v * b * u + v * d * v)"
      by (simp add: zero_less_mult_iff)
    then show ?thesis
      by (simp add: uv quadratic_form_2)
  qed
  then show ?thesis
    unfolding spd_def by (simp add: mat_def All_less_Suc numeral_2_eq_2)
qed

section \<open>MvNormal: the claim\<close>

lemma dot_sum:
  assumes "length u = length v"
  shows "sum_list (map2 (\<lambda>a b. a * b) u v) = (\<Sum>j<length v. u ! j * v ! j)"
  using sum_list_map2_nth [OF assms, of "\<lambda>a b. a * b"] assms by simp

text \<open>
  C4: for a mean \<open>mu\<close> and a value \<open>x\<close> of length \<open>k\<close> and a \<open>k\<close> by \<open>k\<close> precision
  matrix \<open>T\<close>, \<^verbatim>\<open>MvNormal.logp\<close> is the real number
  \<open>1/2 * (- k * log (2 pi) + log (det T) - (x - mu)\<^sup>T T (x - mu))\<close>. The quadratic form
  is written out as the double sum; positive-definiteness of \<open>T\<close> enters through the
  determinant the backend returns for it, which is positive.
\<close>

theorem MvNormal_logp_contract:
  assumes "length mu = k" and "length x = k" and "mat k k T"
    and "det T = Inr d" and "0 < d"
  shows "MvNormal_logp det mu T x =
     Inr (Fin (1 / 2 * (- real k * ln (2 * pi) + ln d
                        - (\<Sum>i<k. \<Sum>j<k. (x ! i - mu ! i) * T ! i ! j * (x ! j - mu ! j)))))"
proof -
  let ?delta = "map2 (\<lambda>a b. a - b) x mu"
  let ?td = "map (\<lambda>row. sum_list (map2 (\<lambda>a b. a * b) row ?delta)) T"
  have len: "length ?delta = k"
    using assms(1,2) by simp
  have rows: "list_all (\<lambda>row. length row = length ?delta) T" and lenT: "length T = k"
    using assms(3) len by (simp_all add: mat_def)
  have delta: "ewise (\<lambda>a b. a - b) x mu = Inr ?delta"
    using assms(1,2) by (simp add: ewise_def)
  have td: "dot_mv T ?delta = Inr ?td"
    using rows by (simp add: dot_mv_def)
  have tdi: "?td ! i = (\<Sum>j<k. T ! i ! j * (x ! j - mu ! j))" if "i < k" for i
  proof -
    have "length (T ! i) = length ?delta"
      using rows that lenT by (simp add: list_all_length)
    then have "sum_list (map2 (\<lambda>a b. a * b) (T ! i) ?delta) =
               (\<Sum>j<length ?delta. T ! i ! j * ?delta ! j)"
      by (rule dot_sum)
    also have "\<dots> = (\<Sum>j<k. T ! i ! j * (x ! j - mu ! j))"
      using assms(1,2) by (intro sum.cong) simp_all
    finally show ?thesis
      using that lenT by simp
  qed
  have "dot_vv ?delta ?td = Inr (\<Sum>i<length ?td. ?delta ! i * ?td ! i)"
    using len lenT dot_sum [of ?delta ?td] by (simp add: dot_vv_def)
  also have "(\<Sum>i<length ?td. ?delta ! i * ?td ! i) =
             (\<Sum>i<k. \<Sum>j<k. (x ! i - mu ! i) * T ! i ! j * (x ! j - mu ! j))"
  proof -
    have "(\<Sum>i<length ?td. ?delta ! i * ?td ! i) =
          (\<Sum>i<k. (x ! i - mu ! i) * (\<Sum>j<k. T ! i ! j * (x ! j - mu ! j)))"
      using lenT assms(1,2) tdi by (intro sum.cong) simp_all
    then show ?thesis
      by (simp add: sum_distrib_left mult.assoc)
  qed
  finally have q: "dot_vv ?delta ?td =
      Inr (\<Sum>i<k. \<Sum>j<k. (x ! i - mu ! i) * T ! i ! j * (x ! j - mu ! j))" .
  show ?thesis
    using assms(4,5) lenT
    by (simp add: MvNormal_logp_def delta td q Let_def)
qed

theorem MvNormal_logp_contract_witness:
  "spd 2 [[2, 1], [1, 2]] \<and>
   MvNormal_logp det_small [0, 0] [[2, 1], [1, 2]] [1, - 1] =
     Inr (Fin (1 / 2 * (- 2 * ln (2 * pi) + ln 3 - 2)))"
proof -
  have d: "det_small [[2, 1], [1, 2]] = Inr 3"
    by (simp add: det_small_def mat_def)
  have "spd 2 [[2, 1], [1, 2]]"
    by (rule spd_2I) simp_all
  then show ?thesis
    using MvNormal_logp_contract [where det = det_small and mu = "[0, 0]" and k = 2
        and T = "[[2, 1], [1, 2]]" and x = "[1, - 1]" and d = 3, OF _ _ _ d]
    by (simp add: mat_def lessThan_Suc numeral_2_eq_2)
qed

section \<open>Wishart: the contract\<close>

lemma Wishart_guard: "bound v [[c]] = (if c then v else NInf)"
  by (simp add: bound_def)

text \<open>
  C1: with \<open>d = det V\<close> and \<open>S = solve V X\<close>, \<^verbatim>\<open>Wishart.logp\<close> is
  \<open>((n - p - 1) * log d - trace S - n * p * log 2 - n * log d - 2 * multigammaln p (n / 2)) / 2\<close>,
  the two determinant terms standing as the source writes them, and negative infinity
  unless \<open>n > p - 1\<close>. The first conjunct is the expression in the arithmetic of the
  tensor elements, for any returned determinant; the second is its value for a positive
  determinant (that of a positive-definite \<open>V\<close>) and a finite \<open>multigammaln\<close>.
\<close>

theorem Wishart_logp_contract:
  assumes "det V = Inr d" and "solve V X = Inr S"
  shows "Wishart_logp det solve multigammaln n p V X =
           Inr (if of_int p - 1 < n
                then (Fin (n - of_int p - 1) * flog (Fin d) - Fin (trace S)
                      - Fin (n * of_int p) * flog (Fin 2) - Fin n * flog (Fin d)
                      - Fin 2 * multigammaln p (n / 2)) / Fin 2
                else NInf) \<and>
         (0 < d \<longrightarrow> multigammaln p (n / 2) = Fin g \<longrightarrow>
          Wishart_logp det solve multigammaln n p V X =
           Inr (if of_int p - 1 < n
                then Fin (((n - of_int p - 1) * ln d - trace S - n * of_int p * ln 2
                           - n * ln d - 2 * g) / 2)
                else NInf))"
  using assms by (simp add: Wishart_logp_def Wishart_guard)

lemma gammaln_half_values:
  "gammaln_half 1 = Fin 0"
  "gammaln_half (3 / 2) = Fin (ln 2 + ln pi / 2 - ln 4)"
  by (simp_all add: gammaln_half_def Let_def)

lemma multigammaln_of_2: "multigammaln_of gammaln_half 2 (3 / 2) = Fin (ln pi + (ln 2 - ln 4))"
  by (simp add: multigammaln_of_def upto.simps gammaln_half_values)

lemma small_backend_example:
  "det_small [[2, 1], [1, 2]] = Inr 3"
  "solve_small [[2, 1], [1, 2]] [[1, 0], [0, 1]] = Inr [[2 / 3, - 1 / 3], [- 1 / 3, 2 / 3]]"
  by (simp_all add: det_small_def solve_small_def mat_def Let_def)

theorem Wishart_logp_contract_witness:
  "spd 2 [[2, 1], [1, 2]] \<and> spd 2 [[1, 0], [0, 1]] \<and>
   Wishart_logp det_small solve_small (multigammaln_of gammaln_half) 3 2
     [[2, 1], [1, 2]] [[1, 0], [0, 1]] =
     Inr (Fin ((0 * ln 3 - 4 / 3 - 6 * ln 2 - 3 * ln 3 - 2 * (ln pi + (ln 2 - ln 4))) / 2)) \<and>
   Wishart_logp det_small solve_small (multigammaln_of gammaln_half) 1 2
     [[2, 1], [1, 2]] [[1, 0], [0, 1]] = Inr NInf"
  using Wishart_logp_contract [where det = det_small and solve = solve_small
          and multigammaln = "multigammaln_of gammaln_half" and n = 3 and p = 2
          and g = "ln pi + (ln 2 - ln 4)", OF small_backend_example]
      Wishart_logp_contract [where det = det_small and solve = solve_small
          and multigammaln = "multigammaln_of gammaln_half" and n = 1 and p = 2,
          OF small_backend_example]
      spd_2I [of 2 2 1] spd_2I [of 1 1 0]
  by (simp add: multigammaln_of_2 trace_def lessThan_Suc numeral_2_eq_2)

section \<open>The sentinel of the bounded log-densities\<close>




section \<open>Wishart: invariance under a permutation\<close>

lemma matrix_of_nth [simp]: "i < p \<Longrightarrow> j < p \<Longrightarrow> matrix_of p f ! i ! j = f i j"
  by (simp add: matrix_of_def)

lemma mat_matrix_of [simp]: "mat p p (matrix_of p f)"
  by (simp add: mat_def matrix_of_def list_all_iff)

lemma mat_eqI:
  assumes "mat p p A" and "mat p p B"
    and "\<And>i j. i < p \<Longrightarrow> j < p \<Longrightarrow> A ! i ! j = B ! i ! j"
  shows "A = B"
proof (rule nth_equalityI)
  show "length A = length B"
    using assms(1,2) by (simp add: mat_def)
next
  fix i assume "i < length A"
  then have i: "i < p" using assms(1) by (simp add: mat_def)
  have "length (A ! i) = p" "length (B ! i) = p"
    using assms(1,2) i by (simp_all add: mat_def list_all_length)
  then show "A ! i = B ! i"
    using assms(3) [OF i] by (intro nth_equalityI) simp_all
qed

lemma mat_mul_nth:
  "i < p \<Longrightarrow> j < p \<Longrightarrow> mat_mul p A B ! i ! j = (\<Sum>k<p. A ! i ! k * B ! k ! j)"
  by (simp add: mat_mul_def)

lemma trace_mat:
  assumes "mat p p M"
  shows "trace M = (\<Sum>i<p. M ! i ! i)"
proof -
  have "length M = p" and "\<And>i. i < p \<Longrightarrow> length (M ! i) = p"
    using assms by (simp_all add: mat_def list_all_length)
  then show ?thesis
    unfolding trace_def by (intro sum.cong) simp_all
qed

lemma sum_two_ones:
  fixes f :: "nat \<Rightarrow> real"
  assumes "finite A" and "\<forall>x\<in>A. f x = 0 \<or> f x = 1"
    and "a \<in> A" and "b \<in> A" and "a \<noteq> b" and "f a = 1" and "f b = 1"
  shows "2 \<le> sum f A"
proof -
  have "sum f A = f a + sum f (A - {a})"
    using assms(1,3) by (rule sum.remove)
  also have "sum f (A - {a}) = f b + sum f (A - {a} - {b})"
    using assms(1,4,5) by (intro sum.remove) auto
  also have "0 \<le> sum f (A - {a} - {b})"
    using assms(2) by (intro sum_nonneg) auto
  ultimately show ?thesis
    using assms(6,7) by linarith
qed

lemma perm_matrix_sigma:
  assumes "perm_matrix p P"
  shows "\<exists>s. bij_betw s {..<p} {..<p} \<and> (\<forall>i<p. \<forall>j<p. P ! i ! j = (if j = s i then 1 else 0))"
proof -
  have bits: "\<forall>i<p. \<forall>j<p. P ! i ! j = 0 \<or> P ! i ! j = 1"
    and rows: "\<forall>i<p. (\<Sum>j<p. P ! i ! j) = 1" and cols: "\<forall>j<p. (\<Sum>i<p. P ! i ! j) = 1"
    using assms by (simp_all add: perm_matrix_def)
  have "\<exists>j. j < p \<and> P ! i ! j = 1 \<and> (\<forall>j'<p. P ! i ! j' = 1 \<longrightarrow> j' = j)" if i: "i < p" for i
  proof -
    have "\<exists>j<p. P ! i ! j = 1"
    proof (rule ccontr)
      assume "\<not> (\<exists>j<p. P ! i ! j = 1)"
      with bits i have "\<forall>j<p. P ! i ! j = 0" by blast
      then have "(\<Sum>j<p. P ! i ! j) = 0" by simp
      with rows i show False by simp
    qed
    then obtain j where j: "j < p" "P ! i ! j = 1" by blast
    have "j' = j" if "j' < p" "P ! i ! j' = 1" for j'
    proof (rule ccontr)
      assume "j' \<noteq> j"
      then have "2 \<le> (\<Sum>j<p. P ! i ! j)"
        using sum_two_ones [of "{..<p}" "\<lambda>j. P ! i ! j" j' j] bits i j that by auto
      with rows i show False by simp
    qed
    with j show ?thesis by blast
  qed
  then obtain s where s: "\<And>i. i < p \<Longrightarrow> s i < p \<and> P ! i ! s i = 1 \<and> (\<forall>j'<p. P ! i ! j' = 1 \<longrightarrow> j' = s i)"
    by metis
  have entries: "\<forall>i<p. \<forall>j<p. P ! i ! j = (if j = s i then 1 else 0)"
    using s bits by metis
  have "inj_on s {..<p}"
  proof (rule inj_onI)
    fix i i' assume "i \<in> {..<p}" "i' \<in> {..<p}" and eq: "s i = s i'"
    then have i: "i < p" "i' < p" by simp_all
    show "i = i'"
    proof (rule ccontr)
      assume ne: "i \<noteq> i'"
      have one: "P ! i ! s i = 1" "P ! i' ! s i = 1" and si: "s i < p"
        using s [OF i(1)] s [OF i(2)] eq by simp_all
      have "\<forall>k\<in>{..<p}. P ! k ! s i = 0 \<or> P ! k ! s i = 1"
        using bits si by simp
      then have "2 \<le> (\<Sum>k<p. P ! k ! s i)"
        using sum_two_ones [of "{..<p}" "\<lambda>k. P ! k ! s i" i i'] i ne one by simp
      with cols si show False by fastforce
    qed
  qed
  moreover have "s ` {..<p} \<subseteq> {..<p}"
    using s by auto
  ultimately have "bij_betw s {..<p} {..<p}"
    by (simp add: bij_betw_def endo_inj_surj)
  with entries show ?thesis by blast
qed

lemma sum_indicator_left:
  fixes f :: "nat \<Rightarrow> real"
  assumes "a < p"
  shows "(\<Sum>k<p. (if k = a then 1 else 0) * f k) = f a"
proof -
  have "(\<Sum>k<p. (if k = a then 1 else 0) * f k) = (\<Sum>k<p. if k = a then f k else 0)"
    by (intro sum.cong) simp_all
  then show ?thesis using assms by simp
qed

lemma sum_indicator_right:
  fixes f :: "nat \<Rightarrow> real"
  assumes "a < p"
  shows "(\<Sum>k<p. f k * (if k = a then 1 else 0)) = f a"
  using sum_indicator_left [OF assms, of f] by (simp add: mult.commute)

lemma permute_sigma:
  assumes s: "bij_betw s {..<p} {..<p}"
    and P: "\<forall>i<p. \<forall>j<p. P ! i ! j = (if j = s i then 1 else 0)"
  shows "permute p P V = matrix_of p (\<lambda>i j. V ! s i ! s j)"
proof (rule mat_eqI [of p])
  show "mat p p (permute p P V)"
    by (simp add: permute_def mat_mul_def)
  show "mat p p (matrix_of p (\<lambda>i j. V ! s i ! s j))"
    by simp
next
  fix i j assume i: "i < p" and j: "j < p"
  have si: "s i < p" and sj: "s j < p"
    using s i j by (auto simp: bij_betw_def)
  have PV: "mat_mul p P V ! i ! k = V ! s i ! k" if "k < p" for k
  proof -
    have "mat_mul p P V ! i ! k = (\<Sum>m<p. (if m = s i then 1 else 0) * V ! m ! k)"
      using i that P by (simp add: mat_mul_nth)
    then show ?thesis using si by (simp only: sum_indicator_left)
  qed
  have "permute p P V ! i ! j = (\<Sum>k<p. V ! s i ! k * (if k = s j then 1 else 0))"
    using i j P PV by (simp add: permute_def mat_mul_nth mat_transpose_def)
  then show "permute p P V ! i ! j = matrix_of p (\<lambda>i j. V ! s i ! s j) ! i ! j"
    using i j sj by (simp only: sum_indicator_right matrix_of_nth)
qed

lemma perm_matrix_orthogonal:
  assumes s: "bij_betw s {..<p} {..<p}"
    and P: "\<forall>i<p. \<forall>j<p. P ! i ! j = (if j = s i then 1 else 0)"
  shows "mat_mul p P (mat_transpose p P) = identity p"
  unfolding identity_def
proof (rule mat_eqI [of p])
  show "mat p p (mat_mul p P (mat_transpose p P))"
    by (simp add: mat_mul_def)
  show "mat p p (matrix_of p (\<lambda>i j. if i = j then 1 else 0))"
    by simp
next
  fix i j assume i: "i < p" and j: "j < p"
  have si: "s i < p" and sj: "s j < p"
    using s i j by (auto simp: bij_betw_def)
  have inj: "s i = s j \<longleftrightarrow> i = j"
    using s i j by (auto simp: bij_betw_def inj_on_def)
  have "mat_mul p P (mat_transpose p P) ! i ! j =
        (\<Sum>k<p. (if k = s i then 1 else 0) * (if k = s j then 1 else 0))"
    using i j P by (simp add: mat_mul_nth mat_transpose_def)
  also have "\<dots> = (if s i = s j then 1 else 0)"
    using si by (simp only: sum_indicator_left)
  finally show "mat_mul p P (mat_transpose p P) ! i ! j =
      matrix_of p (\<lambda>i j. if i = j then 1 else 0) ! i ! j"
    using i j inj by simp
qed

lemma det_permute:
  assumes "det_contract p det" and "perm_matrix p P" and "mat p p V"
  shows "det (permute p P V) = det V"
proof -
  from assms(1) obtain D where D: "\<And>A. mat p p A \<Longrightarrow> det A = Inr (D A)"
    and D1: "D (identity p) = 1"
    and Dm: "\<And>A B. mat p p A \<Longrightarrow> mat p p B \<Longrightarrow> D (mat_mul p A B) = D A * D B"
    unfolding det_contract_def by blast
  from assms(2) obtain s where s: "bij_betw s {..<p} {..<p}"
    and P: "\<forall>i<p. \<forall>j<p. P ! i ! j = (if j = s i then 1 else 0)"
    using perm_matrix_sigma by blast
  have mP: "mat p p P" using assms(2) by (simp add: perm_matrix_def)
  have mT: "mat p p (mat_transpose p P)" by (simp add: mat_transpose_def)
  have mPV: "mat p p (mat_mul p P V)" by (simp add: mat_mul_def)
  have "D (permute p P V) = D P * D V * D (mat_transpose p P)"
    by (simp add: permute_def Dm mP mT mPV assms(3))
  also have "\<dots> = D V * D (mat_mul p P (mat_transpose p P))"
    by (simp add: Dm mP mT)
  also have "\<dots> = D V"
    by (simp add: perm_matrix_orthogonal [OF s P] D1)
  finally show ?thesis
    using D [OF assms(3)] D [of "permute p P V"] by (simp add: permute_def mat_mul_def)
qed

lemma spd_permute:
  assumes V: "spd p V" and s: "bij_betw s {..<p} {..<p}"
  shows "spd p (matrix_of p (\<lambda>i j. V ! s i ! s j))"
proof -
  have lt: "s i < p" if "i < p" for i
    using s that by (auto simp: bij_betw_def)
  have sym: "\<forall>i<p. \<forall>j<p. matrix_of p (\<lambda>i j. V ! s i ! s j) ! i ! j =
                      matrix_of p (\<lambda>i j. V ! s i ! s j) ! j ! i"
    using V lt by (simp add: spd_def)
  have "0 < (\<Sum>i<p. \<Sum>j<p. y ! i * matrix_of p (\<lambda>i j. V ! s i ! s j) ! i ! j * y ! j)"
    if y: "length y = p \<and> y \<noteq> replicate p 0" for y :: "real list"
  proof -
  define t where "t = the_inv_into {..<p} s"
  define z where "z = map (\<lambda>a. y ! t a) [0..<p]"
  have inj: "inj_on s {..<p}"
    using s by (simp add: bij_betw_def)
  have zs: "z ! s i = y ! i" if "i < p" for i
    using that lt [OF that] inj by (simp add: z_def t_def the_inv_into_f_f)
  have "z \<noteq> replicate p 0"
  proof
    assume z0: "z = replicate p 0"
    have "y = replicate p 0"
    proof (rule nth_equalityI)
      show "length y = length (replicate p (0::real))"
        using y by simp
      fix i assume "i < length y"
      then have i: "i < p" using y by simp
      then have "y ! i = z ! s i" by (simp add: zs)
      also have "\<dots> = 0" using lt [OF i] by (simp add: z0)
      finally show "y ! i = replicate p 0 ! i" using i by simp
    qed
    with y show False by simp
  qed
  moreover have "length z = p"
    by (simp add: z_def)
  ultimately have pos: "0 < (\<Sum>a<p. \<Sum>b<p. z ! a * V ! a ! b * z ! b)"
    using V by (simp add: spd_def)
  have "(\<Sum>i<p. \<Sum>j<p. y ! i * matrix_of p (\<lambda>i j. V ! s i ! s j) ! i ! j * y ! j) =
        (\<Sum>i<p. \<Sum>j<p. z ! s i * V ! s i ! s j * z ! s j)"
    by (intro sum.cong) (simp_all add: zs)
  also have "\<dots> = (\<Sum>i<p. \<Sum>b<p. z ! s i * V ! s i ! b * z ! b)"
  proof -
    have "(\<Sum>j<p. z ! s i * V ! s i ! s j * z ! s j) = (\<Sum>b<p. z ! s i * V ! s i ! b * z ! b)"
      for i
      by (rule sum.reindex_bij_betw [OF s, of "\<lambda>b. z ! s i * V ! s i ! b * z ! b"])
    then show ?thesis
      by simp
  qed
  also have "\<dots> = (\<Sum>a<p. \<Sum>b<p. z ! a * V ! a ! b * z ! b)"
    by (rule sum.reindex_bij_betw [OF s, of "\<lambda>a. \<Sum>b<p. z ! a * V ! a ! b * z ! b"])
    finally show ?thesis
      using pos by simp
  qed
  with sym show ?thesis
    unfolding spd_def by simp
qed

lemma spd_cancel:
  assumes V: "spd p V" and Y: "mat p p Y" and Z: "mat p p Z"
    and eq: "mat_mul p V Y = mat_mul p V Z"
  shows "Y = Z"
proof (rule mat_eqI [OF Y Z])
  fix i j assume i: "i < p" and j: "j < p"
  define y where "y = map (\<lambda>k. Y ! k ! j - Z ! k ! j) [0..<p]"
  have yk: "y ! k = Y ! k ! j - Z ! k ! j" if "k < p" for k
    using that by (simp add: y_def)
  have row: "(\<Sum>k<p. V ! m ! k * y ! k) = 0" if m: "m < p" for m
  proof -
    have "(\<Sum>k<p. V ! m ! k * y ! k) =
          (\<Sum>k<p. V ! m ! k * Y ! k ! j) - (\<Sum>k<p. V ! m ! k * Z ! k ! j)"
      by (simp add: yk right_diff_distrib sum_subtractf)
    also have "\<dots> = mat_mul p V Y ! m ! j - mat_mul p V Z ! m ! j"
      using m j by (simp add: mat_mul_nth)
    finally show ?thesis by (simp add: eq)
  qed
  have "(\<Sum>m<p. \<Sum>k<p. y ! m * V ! m ! k * y ! k) = (\<Sum>m<p. y ! m * (\<Sum>k<p. V ! m ! k * y ! k))"
    by (simp add: sum_distrib_left mult.assoc)
  also have "\<dots> = 0"
    by (simp add: row)
  finally have "\<not> 0 < (\<Sum>m<p. \<Sum>k<p. y ! m * V ! m ! k * y ! k)"
    by simp
  moreover have "length y = p"
    by (simp add: y_def)
  ultimately have "y = replicate p 0"
    using V unfolding spd_def by blast
  then have "y ! i = 0"
    using i by simp
  then show "Y ! i ! j = Z ! i ! j"
    using i by (simp add: yk)
qed

text \<open>
  C6: for a \<open>p\<close> by \<open>p\<close> permutation matrix \<open>P\<close> and symmetric positive-definite
  \<open>V\<close> and \<open>X\<close>, \<^verbatim>\<open>Wishart.logp\<close> with scale \<open>P V P\<^sup>T\<close> at the value \<open>P X P\<^sup>T\<close> equals
  \<^verbatim>\<open>Wishart.logp\<close> with scale \<open>V\<close> at \<open>X\<close>. The library routines are taken in exact
  arithmetic, by their contracts: the determinant is multiplicative, and \<^verbatim>\<open>solve\<close>
  returns a solution for a positive-definite system.
\<close>

theorem Wishart_logp_permutation_invariant:
  assumes det: "det_contract p det" and solve: "solve_contract p solve"
    and P: "perm_matrix p P" and V: "spd p V" and X: "spd p X"
  shows "Wishart_logp det solve multigammaln n (int p) (permute p P V) (permute p P X) =
         Wishart_logp det solve multigammaln n (int p) V X"
proof -
  from P obtain s where s: "bij_betw s {..<p} {..<p}"
    and Ps: "\<forall>i<p. \<forall>j<p. P ! i ! j = (if j = s i then 1 else 0)"
    using perm_matrix_sigma by blast
  have lt: "s i < p" if "i < p" for i
    using s that by (auto simp: bij_betw_def)
  have mV: "mat p p V" and mX: "mat p p X"
    using V X by (simp_all add: spd_def)
  let ?V' = "matrix_of p (\<lambda>i j. V ! s i ! s j)"
  let ?X' = "matrix_of p (\<lambda>i j. X ! s i ! s j)"
  have V': "permute p P V = ?V'" and X': "permute p P X = ?X'"
    by (rule permute_sigma [OF s Ps])+
  have spdV': "spd p ?V'"
    by (rule spd_permute [OF V s])
  from solve V mX obtain Y where Y: "solve V X = Inr Y" "mat p p Y" "mat_mul p V Y = X"
    unfolding solve_contract_def by blast
  from solve spdV' obtain Z where Z: "solve ?V' ?X' = Inr Z" "mat p p Z" "mat_mul p ?V' Z = ?X'"
    unfolding solve_contract_def by (metis mat_matrix_of)
  let ?Y' = "matrix_of p (\<lambda>i j. Y ! s i ! s j)"
  have "mat_mul p ?V' ?Y' = ?X'"
  proof (rule mat_eqI [of p])
    fix i j assume i: "i < p" and j: "j < p"
    have "mat_mul p ?V' ?Y' ! i ! j = (\<Sum>k<p. V ! s i ! s k * Y ! s k ! s j)"
      using i j by (simp add: mat_mul_nth)
    also have "\<dots> = (\<Sum>c<p. V ! s i ! c * Y ! c ! s j)"
      by (rule sum.reindex_bij_betw [OF s, of "\<lambda>c. V ! s i ! c * Y ! c ! s j"])
    also have "\<dots> = mat_mul p V Y ! s i ! s j"
      using lt i j by (simp add: mat_mul_nth)
    finally show "mat_mul p ?V' ?Y' ! i ! j = ?X' ! i ! j"
      using i j by (simp add: Y(3))
  qed (simp_all add: mat_mul_def)
  with Z(3) have "mat_mul p ?V' Z = mat_mul p ?V' ?Y'"
    by simp
  then have ZY: "Z = ?Y'"
    using spd_cancel [OF spdV' Z(2)] by simp
  have "trace Z = (\<Sum>i<p. Y ! s i ! s i)"
    by (simp add: ZY trace_mat [of p])
  also have "\<dots> = (\<Sum>a<p. Y ! a ! a)"
    by (rule sum.reindex_bij_betw [OF s, of "\<lambda>a. Y ! a ! a"])
  finally have tr: "trace Z = trace Y"
    by (simp add: trace_mat [OF Y(2)])
  have "det (permute p P V) = det V"
    by (rule det_permute [OF det P mV])
  then show ?thesis
    using Y(1) Z(1) tr by (simp add: Wishart_logp_def V' X' split: sum.splits)
qed

lemma det_small_contract: "det_contract 2 det_small"
  unfolding det_contract_def
proof (intro exI [of _ "\<lambda>A. A ! 0 ! 0 * A ! 1 ! 1 - A ! 0 ! 1 * A ! 1 ! 0"] conjI allI impI)
  fix A assume "mat 2 2 A"
  then show "det_small A = Inr (A ! 0 ! 0 * A ! 1 ! 1 - A ! 0 ! 1 * A ! 1 ! 0)"
    by (simp add: det_small_def mat_def)
next
  show "identity 2 ! 0 ! 0 * identity 2 ! 1 ! 1 - identity 2 ! 0 ! 1 * identity 2 ! 1 ! 0 = 1"
    by (simp add: identity_def)
next
  fix A B :: matrix
  show "mat_mul 2 A B ! 0 ! 0 * mat_mul 2 A B ! 1 ! 1 - mat_mul 2 A B ! 0 ! 1 * mat_mul 2 A B ! 1 ! 0 =
        (A ! 0 ! 0 * A ! 1 ! 1 - A ! 0 ! 1 * A ! 1 ! 0) * (B ! 0 ! 0 * B ! 1 ! 1 - B ! 0 ! 1 * B ! 1 ! 0)"
    by (simp add: mat_mul_nth lessThan_Suc numeral_2_eq_2 algebra_simps)
qed

lemma mat_mul_2_nth:
  "i < 2 \<Longrightarrow> j < 2 \<Longrightarrow>
   mat_mul 2 A B ! i ! j = A ! i ! 0 * B ! 0 ! j + A ! i ! 1 * B ! 1 ! j"
  by (simp add: mat_mul_nth lessThan_Suc numeral_2_eq_2)

lemma spd_2_det_pos:
  assumes "spd 2 V"
  shows "0 < V ! 0 ! 0 * V ! 1 ! 1 - V ! 0 ! 1 * V ! 1 ! 0"
proof -
  define a b d where "a = V ! 0 ! 0" and "b = V ! 0 ! 1" and "d = V ! 1 ! 1"
  have sym: "V ! 1 ! 0 = b"
    using assms by (simp add: spd_def b_def)
  have all: "\<forall>y. length y = 2 \<and> y \<noteq> replicate 2 0 \<longrightarrow>
      0 < (\<Sum>i<2. \<Sum>j<2. y ! i * V ! i ! j * y ! j)"
    using assms unfolding spd_def by blast
  have form: "0 < u * a * u + u * b * v + (v * b * u + v * d * v)"
    if "u \<noteq> 0 \<or> v \<noteq> 0" for u v :: real
  proof -
    have "length [u, v] = 2 \<and> [u, v] \<noteq> replicate 2 0"
      using that by (auto simp: numeral_2_eq_2)
    with all have "0 < (\<Sum>i<2. \<Sum>j<2. [u, v] ! i * V ! i ! j * [u, v] ! j)"
      by blast
    then show ?thesis
      by (simp only: quadratic_form_2 sym a_def b_def d_def)
  qed
  have a: "0 < a"
    using form [of 1 0] by simp
  have pos: "0 < b * a * b + b * b * (- a) + (- a * b * b + - a * d * (- a))"
    by (rule form) (use a in simp)
  have eq: "b * a * b + b * b * (- a) + (- a * b * b + - a * d * (- a)) = a * (a * d - b * b)"
    by (simp add: algebra_simps)
  from pos have "0 < a * (a * d - b * b)"
    by (simp only: eq)
  with a have "0 < a * d - b * b"
    by (simp add: zero_less_mult_iff)
  then show ?thesis
    by (simp only: a_def b_def d_def sym [unfolded b_def])
qed

lemma cramer_2:
  fixes a b c d e g :: real
  assumes "a * d - b * c \<noteq> 0"
  shows "a * ((d * e - b * g) / (a * d - b * c)) + b * ((a * g - c * e) / (a * d - b * c)) = e"
    and "c * ((d * e - b * g) / (a * d - b * c)) + d * ((a * g - c * e) / (a * d - b * c)) = g"
proof -
  have "a * ((d * e - b * g) / (a * d - b * c)) + b * ((a * g - c * e) / (a * d - b * c)) =
        ((a * d - b * c) * e) / (a * d - b * c)"
    by (simp add: algebra_simps add_divide_distrib [symmetric] diff_divide_distrib [symmetric])
  then show "a * ((d * e - b * g) / (a * d - b * c)) + b * ((a * g - c * e) / (a * d - b * c)) = e"
    using assms by simp
  have "c * ((d * e - b * g) / (a * d - b * c)) + d * ((a * g - c * e) / (a * d - b * c)) =
        ((a * d - b * c) * g) / (a * d - b * c)"
    by (simp add: algebra_simps add_divide_distrib [symmetric] diff_divide_distrib [symmetric])
  then show "c * ((d * e - b * g) / (a * d - b * c)) + d * ((a * g - c * e) / (a * d - b * c)) = g"
    using assms by simp
qed

lemma solve_small_contract: "solve_contract 2 solve_small"
  unfolding solve_contract_def
proof (intro allI impI, elim conjE)
  fix V X assume V: "spd 2 V" and X: "mat 2 2 X"
  let ?a = "V ! 0 ! 0" and ?b = "V ! 0 ! 1" and ?c = "V ! 1 ! 0" and ?d = "V ! 1 ! 1"
  let ?D = "?a * ?d - ?b * ?c"
  let ?y00 = "(?d * X ! 0 ! 0 - ?b * X ! 1 ! 0) / ?D"
  let ?y01 = "(?d * X ! 0 ! 1 - ?b * X ! 1 ! 1) / ?D"
  let ?y10 = "(?a * X ! 1 ! 0 - ?c * X ! 0 ! 0) / ?D"
  let ?y11 = "(?a * X ! 1 ! 1 - ?c * X ! 0 ! 1) / ?D"
  let ?Y = "[[?y00, ?y01], [?y10, ?y11]]"
  have D: "?D \<noteq> 0"
    using spd_2_det_pos [OF V] by simp
  have mV: "mat 2 2 V"
    using V by (simp add: spd_def)
  have sol: "solve_small V X = Inr ?Y"
    using mV X D by (simp add: solve_small_def Let_def mat_def)
  have mY: "mat 2 2 ?Y"
    by (simp add: mat_def)
  have entries: "?Y ! 0 ! 0 = ?y00" "?Y ! 0 ! 1 = ?y01" "?Y ! 1 ! 0 = ?y10" "?Y ! 1 ! 1 = ?y11"
    by simp_all
  have "mat_mul 2 V ?Y = X"
  proof (rule mat_eqI [OF _ X])
    fix i j :: nat assume "i < 2" "j < 2"
    then have "(i = 0 \<or> i = 1) \<and> (j = 0 \<or> j = 1)"
      by auto
    moreover have "mat_mul 2 V ?Y ! 0 ! 0 = X ! 0 ! 0"
      by (simp only: mat_mul_2_nth [of 0 0] entries cramer_2(1) [OF D])
    moreover have "mat_mul 2 V ?Y ! 0 ! 1 = X ! 0 ! 1"
      by (simp only: mat_mul_2_nth [of 0 1] entries cramer_2(1) [OF D])
    moreover have "mat_mul 2 V ?Y ! 1 ! 0 = X ! 1 ! 0"
      by (simp only: mat_mul_2_nth [of 1 0] entries cramer_2(2) [OF D])
    moreover have "mat_mul 2 V ?Y ! 1 ! 1 = X ! 1 ! 1"
      by (simp only: mat_mul_2_nth [of 1 1] entries cramer_2(2) [OF D])
    ultimately show "mat_mul 2 V ?Y ! i ! j = X ! i ! j"
      by auto
  qed (simp add: mat_mul_def)
  with sol mY show "\<exists>Y. solve_small V X = Inr Y \<and> mat 2 2 Y \<and> mat_mul 2 V Y = X"
    by blast
qed

theorem Wishart_logp_permutation_invariant_witness:
  "permute 2 [[0, 1], [1, 0]] [[2, 1], [1, 3]] = [[3, 1], [1, 2]] \<and>
   permute 2 [[0, 1], [1, 0]] [[1, 0], [0, 2]] = [[2, 0], [0, 1]] \<and>
   Wishart_logp det_small solve_small (multigammaln_of gammaln_half) 3 2
     [[3, 1], [1, 2]] [[2, 0], [0, 1]] =
   Wishart_logp det_small solve_small (multigammaln_of gammaln_half) 3 2
     [[2, 1], [1, 3]] [[1, 0], [0, 2]]"
proof -
  have P: "perm_matrix 2 [[0, 1], [1, 0]]"
    by (simp add: perm_matrix_def mat_def All_less_Suc lessThan_Suc numeral_2_eq_2)
  have V: "spd 2 [[2, 1], [1, 3]]" and X: "spd 2 [[1, 0], [0, 2]]"
    by (rule spd_2I; simp)+
  have pV: "permute 2 [[0, 1], [1, 0]] [[2, 1], [1, 3]] = [[3, 1], [1, 2]]"
    by (simp add: permute_def mat_mul_def mat_transpose_def matrix_of_def
        lessThan_Suc numeral_2_eq_2 upt_rec)
  have pX: "permute 2 [[0, 1], [1, 0]] [[1, 0], [0, 2]] = [[2, 0], [0, 1]]"
    by (simp add: permute_def mat_mul_def mat_transpose_def matrix_of_def
        lessThan_Suc numeral_2_eq_2 upt_rec)
  show ?thesis
    using Wishart_logp_permutation_invariant [OF det_small_contract solve_small_contract P V X,
        of "multigammaln_of gammaln_half" 3]
    by (simp add: pV pX)
qed

end
